theory Spec2Isabelle
  imports Main
begin

section \<open>Errors\<close>

text \<open>
  The exceptions the core raises, as values. \<open>ValueError\<close> and \<open>RuntimeError\<close> carry a
  short tag naming the \<^verbatim>\<open>raise\<close> statement; \<open>IndexError\<close> is what Python's tuple
  indexing and \<^verbatim>\<open>random.choice\<close> raise by themselves.
\<close>

datatype error = ValueError string | IndexError | RuntimeError string

section \<open>Hex coordinates (hex.py)\<close>

text \<open>
  \<^verbatim>\<open>Hex\<close> is a frozen dataclass with the two integer fields \<open>q\<close> and \<open>r\<close>. Its third
  annotated attribute \<^verbatim>\<open>DIRS\<close> has a default that no caller in the repository
  overrides, so it is the constant table below. Python integers are unbounded: \<open>int\<close>.
\<close>

datatype hex = Hex (q: int) (r: int)

definition DIRS :: "(int \<times> int) list" where
  "DIRS = [(1, 0), (1, -1), (0, -1), (-1, 0), (-1, 1), (0, 1)]"

text \<open>
  Python's \<^verbatim>\<open>t[i]\<close> on a tuple: an index from \<open>0\<close> up to \<open>len - 1\<close> reads from the
  front, an index from \<open>-len\<close> up to \<open>-1\<close> reads from the back, every other index raises.
\<close>

definition getitem :: "'a list \<Rightarrow> int \<Rightarrow> error + 'a" where
  "getitem t i =
     (if 0 \<le> i \<and> i < int (length t) then Inr (t ! nat i)
      else if - int (length t) \<le> i \<and> i < 0 then Inr (t ! nat (i + int (length t)))
      else Inl IndexError)"

definition neighbor :: "hex \<Rightarrow> int \<Rightarrow> error + hex" where
  "neighbor h direction_index =
     (case getitem DIRS direction_index of
        Inl e \<Rightarrow> Inl e
      | Inr (dq, dr) \<Rightarrow> Inr (Hex (q h + dq) (r h + dr)))"

definition scale_dir :: "hex \<Rightarrow> int \<Rightarrow> int \<Rightarrow> error + hex" where
  "scale_dir h direction_index k =
     (case getitem DIRS direction_index of
        Inl e \<Rightarrow> Inl e
      | Inr (dq, dr) \<Rightarrow> Inr (Hex (q h + dq * k) (r h + dr * k)))"

text \<open>
  Inside the package every direction index is a loop variable over \<^verbatim>\<open>range(6)\<close> or the
  literal \<open>4\<close>, where the table lookup cannot raise. \<open>neighbor_at\<close> and \<open>scale_at\<close> are
  \<^verbatim>\<open>neighbor\<close> and \<^verbatim>\<open>scale_dir\<close> at such an index; the lemmas
  \<open>neighbor_in_range\<close>, \<open>scale_dir_in_range\<close> and \<open>neighbors_in_range\<close> below
  connect them.
\<close>

definition neighbor_at :: "hex \<Rightarrow> nat \<Rightarrow> hex" where
  "neighbor_at h side = (case DIRS ! side of (dq, dr) \<Rightarrow> Hex (q h + dq) (r h + dr))"

definition scale_at :: "hex \<Rightarrow> nat \<Rightarrow> int \<Rightarrow> hex" where
  "scale_at h side k = (case DIRS ! side of (dq, dr) \<Rightarrow> Hex (q h + dq * k) (r h + dr * k))"

definition neighbors :: "hex \<Rightarrow> hex list" where
  "neighbors h = map (neighbor_at h) [0..<6]"

definition add :: "hex \<Rightarrow> int \<Rightarrow> int \<Rightarrow> hex" where
  "add h dq dr = Hex (q h + dq) (r h + dr)"

definition distance :: "hex \<Rightarrow> hex \<Rightarrow> int" where
  "distance a b =
     (let dq = q a - q b; dr = r a - r b
      in max \<bar>dq\<bar> (max \<bar>dr\<bar> \<bar>(q a + r a) - (q b + r b)\<bar>))"

section \<open>Ring traversal (traversal.py)\<close>

text \<open>
  The inner loop of \<^verbatim>\<open>ring\<close> appends the current hex and steps to its neighbour,
  \<open>n\<close> times; the state is the pair of the loop variable \<^verbatim>\<open>h\<close> and the list
  \<^verbatim>\<open>out\<close>. The outer loop runs it for the sides \<open>0..5\<close>.
\<close>

fun ring_side :: "nat \<Rightarrow> nat \<Rightarrow> hex \<times> hex list \<Rightarrow> hex \<times> hex list" where
  "ring_side side 0 s = s"
| "ring_side side (Suc n) (h, out) = ring_side side n (neighbor_at h side, out @ [h])"

definition ring :: "hex \<Rightarrow> int \<Rightarrow> error + hex list" where
  "ring center radius =
     (if radius < 0 then Inl (ValueError ''radius must be >= 0'')
      else if radius = 0 then Inr [center]
      else Inr (snd (fold (\<lambda>side s. ring_side side (nat radius) s) [0..<6]
                       (scale_at center 4 radius, []))))"

text \<open>
  \<^verbatim>\<open>spiral\<close> has no check of its own: it extends \<^verbatim>\<open>out\<close> by the rings
  \<open>0, \<dots>, radius\<close>, and \<^verbatim>\<open>range(0, radius + 1)\<close> is empty for a negative radius.
\<close>

fun spiral_loop :: "hex \<Rightarrow> int list \<Rightarrow> hex list \<Rightarrow> error + hex list" where
  "spiral_loop center [] out = Inr out"
| "spiral_loop center (k # ks) out =
     (case ring center k of
        Inl e \<Rightarrow> Inl e
      | Inr hs \<Rightarrow> spiral_loop center ks (out @ hs))"

definition spiral :: "hex \<Rightarrow> int \<Rightarrow> error + hex list" where
  "spiral center radius = spiral_loop center [0..radius] []"

section \<open>Sparse grid (grid.py)\<close>

text \<open>
  \<^verbatim>\<open>HexGrid\<close> wraps one Python dictionary from \<^verbatim>\<open>Hex\<close> to a biome string. A
  dictionary enumerates its items in insertion order and \<^verbatim>\<open>random.choice\<close> is
  applied to the list of keys, so the order is observable: the grid is an association
  list in insertion order. Assigning to a key that is present replaces its value in
  place, assigning to a new key appends.
\<close>

type_synonym biome = string

type_synonym hexgrid = "(hex \<times> biome) list"

definition keys :: "hexgrid \<Rightarrow> hex list" where
  "keys g = map fst g"

definition contains :: "hexgrid \<Rightarrow> hex \<Rightarrow> bool" where
  "contains g h = (h \<in> set (keys g))"

definition get :: "hexgrid \<Rightarrow> hex \<Rightarrow> biome option" where
  "get g h = map_of g h"

fun set_cell :: "hex \<Rightarrow> biome \<Rightarrow> hexgrid \<Rightarrow> hexgrid" where
  "set_cell h v [] = [(h, v)]"
| "set_cell h v ((h', v') # g) =
     (if h' = h then (h', v) # g else (h', v') # set_cell h v g)"

definition update :: "hexgrid \<Rightarrow> hexgrid \<Rightarrow> hexgrid" where
  "update g other = fold (\<lambda>(h, v) acc. set_cell h v acc) other g"

definition is_disjoint :: "hexgrid \<Rightarrow> hexgrid \<Rightarrow> bool" where
  "is_disjoint g other = (set (keys g) \<inter> set (keys other) = {})"

definition touches :: "hexgrid \<Rightarrow> hexgrid \<Rightarrow> bool" where
  "touches g other =
     list_ex (\<lambda>h. list_ex (\<lambda>nb. nb \<in> set (keys other)) (neighbors h)) (keys g)"

definition translate :: "hexgrid \<Rightarrow> int \<Rightarrow> int \<Rightarrow> hexgrid" where
  "translate g dq dr = fold (\<lambda>(h, v) out. set_cell (add h dq dr) v out) g []"

section \<open>The random source\<close>

text \<open>
  The generators draw from one \<^verbatim>\<open>random.Random\<close> through \<^verbatim>\<open>randint\<close> and
  \<^verbatim>\<open>choice\<close>, and both reduce to one draw below a bound. The program sees only the
  values drawn, so a state of the source is the infinite sequence of raw draws still to
  come: a draw below \<open>n\<close> takes the head modulo \<open>n\<close> and leaves the tail. Every
  sequence of in-range results is the behaviour of some state, and a theorem for all
  states holds for every seed. \<^verbatim>\<open>choice\<close> raises on an empty sequence.
\<close>

type_synonym rng = "nat \<Rightarrow> nat"

definition randbelow :: "nat \<Rightarrow> rng \<Rightarrow> nat \<times> rng" where
  "randbelow n rng = (rng 0 mod n, \<lambda>i. rng (Suc i))"

definition randint :: "int \<Rightarrow> int \<Rightarrow> rng \<Rightarrow> int \<times> rng" where
  "randint a b rng = (case randbelow (nat (b - a + 1)) rng of (k, rng') \<Rightarrow> (a + int k, rng'))"

definition choice :: "'a list \<Rightarrow> rng \<Rightarrow> error + 'a \<times> rng" where
  "choice xs rng =
     (if xs = [] then Inl IndexError
      else case randbelow (length xs) rng of (k, rng') \<Rightarrow> Inr (xs ! k, rng'))"

section \<open>Biome tables (tables.py)\<close>

definition start_biome :: "rng \<Rightarrow> biome \<times> rng" where
  "start_biome rng =
     (case randint 1 10 rng of (x, rng') \<Rightarrow>
        (if 1 \<le> x \<and> x \<le> 4 then ''grassland''
         else if 5 \<le> x \<and> x \<le> 6 then ''forest''
         else if 7 \<le> x \<and> x \<le> 8 then ''hills''
         else if x = 9 then ''marsh''
         else ''mountains'', rng'))"

definition next_biome :: "biome \<Rightarrow> rng \<Rightarrow> biome \<times> rng" where
  "next_biome prev rng =
     (case randint 1 10 rng of (x, rng') \<Rightarrow>
        (if 1 \<le> x \<and> x \<le> 5 then prev
         else if x = 6 then ''grassland''
         else if x = 7 then ''forest''
         else if x = 8 then ''hills''
         else if x = 9 then ''marsh''
         else ''mountains'', rng'))"

section \<open>Snowflake generator (generators.py)\<close>

definition choose_inward_neighbor :: "hex \<Rightarrow> hex \<Rightarrow> hexgrid \<Rightarrow> hex option" where
  "choose_inward_neighbor target center grid =
     (let dist_target = distance target center;
          inward_candidates =
            filter (\<lambda>nb. contains grid nb \<and> distance nb center = dist_target - 1)
              (neighbors target)
      in case inward_candidates of
           nb # _ \<Rightarrow> Some nb
         | [] \<Rightarrow> find (\<lambda>nb. contains grid nb) (neighbors target))"

text \<open>
  The body of the inner loop of \<^verbatim>\<open>generate\<close>, over the hexes of one ring, and the
  outer loop over the ring distances. \<^verbatim>\<open>grid.get(prev_hex) or "grassland"\<close> takes
  the default for a missing key and for the empty string.
\<close>

fun fill_ring :: "hex \<Rightarrow> hex list \<Rightarrow> hexgrid \<times> rng \<Rightarrow> hexgrid \<times> rng" where
  "fill_ring center [] s = s"
| "fill_ring center (h # hs) (grid, rng) =
     (case choose_inward_neighbor h center grid of
        None \<Rightarrow>
          (case start_biome rng of (b, rng') \<Rightarrow>
             fill_ring center hs (set_cell h b grid, rng'))
      | Some prev_hex \<Rightarrow>
          (let prev_biome =
                 (case get grid prev_hex of
                    None \<Rightarrow> ''grassland''
                  | Some b \<Rightarrow> if b = [] then ''grassland'' else b)
           in case next_biome prev_biome rng of (b, rng') \<Rightarrow>
                fill_ring center hs (set_cell h b grid, rng')))"

fun fill_rings :: "hex \<Rightarrow> int list \<Rightarrow> hexgrid \<times> rng \<Rightarrow> error + hexgrid \<times> rng" where
  "fill_rings center [] s = Inr s"
| "fill_rings center (k # ks) s =
     (case ring center k of
        Inl e \<Rightarrow> Inl e
      | Inr hs \<Rightarrow> fill_rings center ks (fill_ring center hs s))"

definition generate :: "hex \<Rightarrow> int \<Rightarrow> rng \<Rightarrow> error + hexgrid \<times> rng" where
  "generate center radius rng =
     (if radius < 0 then Inl (ValueError ''radius must be >= 0'')
      else case start_biome rng of (b, rng') \<Rightarrow>
             fill_rings center [1..radius] (set_cell center b [], rng'))"

section \<open>Connected chain builder (generators.py)\<close>

text \<open>
  The frontier loop runs over the Python set of the super-map's keys and appends every
  neighbour that is not in the set; \<open>frontier_of\<close> takes the set as the list of its
  elements in iteration order.
\<close>

definition frontier_of :: "hex list \<Rightarrow> hex list" where
  "frontier_of super_set =
     concat (map (\<lambda>h. filter (\<lambda>nb. nb \<notin> set super_set) (neighbors h)) super_set)"

text \<open>
  The retry loop: \<open>n\<close> tries are left. An accepted placement merges the moved cluster
  and leaves the loop; running out of tries leaves \<^verbatim>\<open>placed\<close> false, which raises.
\<close>

fun try_place ::
  "nat \<Rightarrow> hexgrid \<Rightarrow> hexgrid \<Rightarrow> hex list \<Rightarrow> hex list \<Rightarrow> rng \<Rightarrow> error + hexgrid \<times> rng" where
  "try_place 0 super_map new frontier new_keys rng =
     Inl (RuntimeError ''Failed to place a connected snowflake'')"
| "try_place (Suc n) super_map new frontier new_keys rng =
     (case choice frontier rng of
        Inl e \<Rightarrow> Inl e
      | Inr (target, rng1) \<Rightarrow>
          (case choice new_keys rng1 of
             Inl e \<Rightarrow> Inl e
           | Inr (anchor, rng2) \<Rightarrow>
               (let dq = q target - q anchor;
                    dr = r target - r anchor;
                    moved = translate new dq dr
                in if \<not> is_disjoint super_map moved
                     then try_place n super_map new frontier new_keys rng2
                   else if \<not> touches super_map moved
                     then try_place n super_map new frontier new_keys rng2
                   else Inr (update super_map moved, rng2))))"

text \<open>
  The iteration order of a Python set is not fixed by the language. The model takes it
  as the parameter \<open>set_iter\<close>: the order in which the set built from a list of keys is
  enumerated.
\<close>

fun chain_loop ::
  "nat \<Rightarrow> (hex list \<Rightarrow> hex list) \<Rightarrow> int \<Rightarrow> int \<Rightarrow> hexgrid \<times> rng \<Rightarrow> error + hexgrid \<times> rng" where
  "chain_loop 0 set_iter radius max_tries s = Inr s"
| "chain_loop (Suc n) set_iter radius max_tries (super_map, rng) =
     (case generate (Hex 0 0) radius rng of
        Inl e \<Rightarrow> Inl e
      | Inr (new, rng1) \<Rightarrow>
          (let new_keys = keys new;
               super_set = set_iter (keys super_map);
               frontier = frontier_of super_set
           in if frontier = [] then Inl (RuntimeError ''No frontier found'')
              else case try_place (nat max_tries) super_map new frontier new_keys rng1 of
                     Inl e \<Rightarrow> Inl e
                   | Inr s' \<Rightarrow> chain_loop n set_iter radius max_tries s'))"

definition build_chain ::
  "(hex list \<Rightarrow> hex list) \<Rightarrow> int \<Rightarrow> int \<Rightarrow> int \<Rightarrow> rng \<Rightarrow> error + hexgrid \<times> rng" where
  "build_chain set_iter count radius max_tries rng =
     (if count < 1 then Inl (ValueError ''count must be >= 1'')
      else case generate (Hex 0 0) radius rng of
             Inl e \<Rightarrow> Inl e
           | Inr (seed, rng1) \<Rightarrow>
               chain_loop (nat (count - 1)) set_iter radius max_tries (update [] seed, rng1))"

section \<open>Concentric builder (generators.py)\<close>

definition merge_first_wins :: "hexgrid \<Rightarrow> hexgrid \<Rightarrow> hexgrid" where
  "merge_first_wins out snowflake =
     fold (\<lambda>(h, v) acc. if get acc h = None then set_cell h v acc else acc) snowflake out"

fun build_loop :: "hex list \<Rightarrow> int \<Rightarrow> int \<Rightarrow> hexgrid \<times> rng \<Rightarrow> error + hexgrid \<times> rng" where
  "build_loop [] spacing snowflake_radius s = Inr s"
| "build_loop (mh # mhs) spacing snowflake_radius (out, rng) =
     (case generate (Hex (q mh * spacing) (r mh * spacing)) snowflake_radius rng of
        Inl e \<Rightarrow> Inl e
      | Inr (snowflake, rng') \<Rightarrow>
          build_loop mhs spacing snowflake_radius (merge_first_wins out snowflake, rng'))"

definition build :: "int \<Rightarrow> int \<Rightarrow> rng \<Rightarrow> error + hexgrid \<times> rng" where
  "build meta_radius snowflake_radius rng =
     (if meta_radius < 0 then Inl (ValueError ''meta_radius must be >= 0'')
      else if snowflake_radius < 0 then Inl (ValueError ''snowflake_radius must be >= 0'')
      else (let spacing = 2 * snowflake_radius
            in case spiral (Hex 0 0) meta_radius of
                 Inl e \<Rightarrow> Inl e
               | Inr meta_positions \<Rightarrow>
                   build_loop meta_positions spacing snowflake_radius ([], rng)))"

section \<open>What the specification says, as definitions\<close>

text \<open>
  The ring as the specification words it: segment \<open>i\<close> starts at corner \<open>i\<close> and takes
  \<open>radius\<close> steps in direction \<open>i\<close>; corner \<open>0\<close> is the center shifted \<open>radius\<close> steps
  south-west, and each further corner is the previous one shifted \<open>radius\<close> steps along
  the previous segment's direction.
\<close>

fun corner :: "hex \<Rightarrow> int \<Rightarrow> nat \<Rightarrow> hex" where
  "corner center radius 0 = scale_at center 4 radius"
| "corner center radius (Suc i) = scale_at (corner center radius i) i radius"

definition segment :: "hex \<Rightarrow> int \<Rightarrow> nat \<Rightarrow> hex list" where
  "segment center radius i =
     map (\<lambda>j. scale_at (corner center radius i) i (int j)) [0..<nat radius]"

definition ring_hexes :: "hex \<Rightarrow> int \<Rightarrow> hex list" where
  "ring_hexes center radius =
     (if radius = 0 then [center] else concat (map (segment center radius) [0..<6]))"

text \<open>
  A chain of placements: every cluster of the list is disjoint from the grid built so
  far and touches it, and is then merged into it.
\<close>

fun placed_ok :: "hexgrid \<Rightarrow> hexgrid list \<Rightarrow> bool" where
  "placed_ok g [] = True"
| "placed_ok g (m # ms) = (is_disjoint g m \<and> touches g m \<and> placed_ok (update g m) ms)"

text \<open>
  The clusters of the concentric build, one per center in order, each generated from
  the random source as the previous one left it; and the value a coordinate has under
  first-wins: that of the first cluster of the list that holds it.
\<close>

fun gen_clusters :: "hex list \<Rightarrow> int \<Rightarrow> rng \<Rightarrow> error + hexgrid list \<times> rng" where
  "gen_clusters [] radius rng = Inr ([], rng)"
| "gen_clusters (c # cs) radius rng =
     (case generate c radius rng of
        Inl e \<Rightarrow> Inl e
      | Inr (g, rng1) \<Rightarrow>
          (case gen_clusters cs radius rng1 of
             Inl e \<Rightarrow> Inl e
           | Inr (gs, rng2) \<Rightarrow> Inr (g # gs, rng2)))"

fun first_wins :: "hexgrid list \<Rightarrow> hex \<Rightarrow> biome option" where
  "first_wins [] h = None"
| "first_wins (g # gs) h = (case get g h of Some v \<Rightarrow> Some v | None \<Rightarrow> first_wins gs h)"

section \<open>Coordinate algebra\<close>

lemma DIRS_length [simp]: "length DIRS = 6"
  by (simp add: DIRS_def)

lemma neighbor_in_range: "side < 6 \<Longrightarrow> neighbor h (int side) = Inr (neighbor_at h side)"
  by (simp add: neighbor_def neighbor_at_def getitem_def split: prod.splits)

lemma scale_dir_in_range: "side < 6 \<Longrightarrow> scale_dir h (int side) k = Inr (scale_at h side k)"
  by (simp add: scale_dir_def scale_at_def getitem_def split: prod.splits)

lemma neighbors_in_range: "map (neighbor h) (map int [0..<6]) = map Inr (neighbors h)"
  by (simp add: neighbors_def neighbor_in_range)

lemma distance_ge_q: "\<bar>q a - q b\<bar> \<le> distance a b"
  by (simp add: distance_def Let_def)

lemma distance_ge_r: "\<bar>r a - r b\<bar> \<le> distance a b"
  by (simp add: distance_def Let_def)

lemma distance_ge_s: "\<bar>(q a + r a) - (q b + r b)\<bar> \<le> distance a b"
  by (simp add: distance_def Let_def)

lemma distance_le_iff:
  "distance a b \<le> d \<longleftrightarrow>
     \<bar>q a - q b\<bar> \<le> d \<and> \<bar>r a - r b\<bar> \<le> d \<and> \<bar>(q a + r a) - (q b + r b)\<bar> \<le> d"
  by (simp add: distance_def Let_def)

lemma distance_sym: "distance a b = distance b a"
  by (simp add: distance_def Let_def abs_minus_commute)

text \<open>
  C8. The hex distance is symmetric, it is zero exactly for equal coordinates, and it
  satisfies the triangle inequality.
\<close>

theorem distance_metric:
  "distance a b = distance b a
   \<and> (distance a b = 0) = (a = b)
   \<and> distance a c \<le> distance a b + distance b c"
proof -
  have sym: "distance a b = distance b a"
    by (simp add: distance_def Let_def abs_minus_commute)
  have zero: "(distance a b = 0) = (a = b)"
    by (cases a; cases b) (auto simp: distance_def Let_def max_def)
  have "\<bar>q a - q c\<bar> \<le> \<bar>q a - q b\<bar> + \<bar>q b - q c\<bar>"
    by linarith
  then have 1: "\<bar>q a - q c\<bar> \<le> distance a b + distance b c"
    using distance_ge_q [of a b] distance_ge_q [of b c] by linarith
  have "\<bar>r a - r c\<bar> \<le> \<bar>r a - r b\<bar> + \<bar>r b - r c\<bar>"
    by linarith
  then have 2: "\<bar>r a - r c\<bar> \<le> distance a b + distance b c"
    using distance_ge_r [of a b] distance_ge_r [of b c] by linarith
  have "\<bar>(q a + r a) - (q c + r c)\<bar>
        \<le> \<bar>(q a + r a) - (q b + r b)\<bar> + \<bar>(q b + r b) - (q c + r c)\<bar>"
    by linarith
  then have 3: "\<bar>(q a + r a) - (q c + r c)\<bar> \<le> distance a b + distance b c"
    using distance_ge_s [of a b] distance_ge_s [of b c] by linarith
  from 1 2 3 have tri: "distance a c \<le> distance a b + distance b c"
    by (simp only: distance_le_iff)
  from sym zero tri show ?thesis by blast
qed

text \<open>
  C7, as the code has it. \<^verbatim>\<open>neighbor\<close> reads the direction table with Python's
  indexing: every index from \<open>-6\<close> to \<open>5\<close> yields the coordinate offset by the table's
  vector at that index modulo \<open>6\<close> (so \<open>-1\<close> is south-east, the last entry), and every
  other index fails with \<open>IndexError\<close>.
\<close>

theorem neighbor_python_index:
  "neighbor h i =
     (if - 6 \<le> i \<and> i < 6
      then Inr (Hex (q h + fst (DIRS ! nat (i mod 6))) (r h + snd (DIRS ! nat (i mod 6))))
      else Inl IndexError)"
proof -
  have "i < 0 \<Longrightarrow> - 6 \<le> i \<Longrightarrow> i mod 6 = i + 6"
    by (smt (verit) mod_add_self2 mod_pos_pos_trivial)
  moreover have "0 \<le> i \<Longrightarrow> i < 6 \<Longrightarrow> i mod 6 = i"
    by simp
  ultimately show ?thesis
    by (auto simp: neighbor_def getitem_def split: prod.splits)
qed

text \<open>
  The claim C7 as stated fails at index \<open>-1\<close>: the call returns the south-east
  neighbour instead of failing.
\<close>

theorem neighbor_negative_index_counterexample:
  "neighbor (Hex 0 0) (- 1) = Inr (Hex 0 1)"
  by (simp add: neighbor_def getitem_def DIRS_def)

section \<open>Rings\<close>

lemma upt6: "[0..<6] = [0, 1, 2, 3, 4, 5::nat]"
  by (simp add: upt_rec)

lemma scale_at_simps:
  "scale_at h 0 k = Hex (q h + k) (r h)"
  "scale_at h 1 k = Hex (q h + k) (r h - k)"
  "scale_at h 2 k = Hex (q h) (r h - k)"
  "scale_at h 3 k = Hex (q h - k) (r h)"
  "scale_at h 4 k = Hex (q h - k) (r h + k)"
  "scale_at h 5 k = Hex (q h) (r h + k)"
  "scale_at h (Suc 0) k = Hex (q h + k) (r h - k)"
  by (simp_all add: scale_at_def DIRS_def)

lemma neighbor_at_scale: "neighbor_at h side = scale_at h side 1"
  by (simp add: neighbor_at_def scale_at_def split: prod.splits)

lemma scale_at_0: "scale_at h side 0 = h"
  by (simp add: scale_at_def split: prod.splits)

lemma scale_at_scale_at: "scale_at (scale_at h side j) side k = scale_at h side (j + k)"
  by (simp add: scale_at_def algebra_simps split: prod.splits)

text \<open>The inner loop in closed form: \<open>n\<close> steps along one direction.\<close>

lemma ring_side_eq:
  "ring_side side n (h, out) =
     (scale_at h side (int n), out @ map (\<lambda>j. scale_at h side (int j)) [0..<n])"
proof (induction n arbitrary: h out)
  case 0
  show ?case by (simp add: scale_at_0)
next
  case (Suc n)
  have "map (\<lambda>j. scale_at h side (int j)) [0..<Suc n]
        = h # map (\<lambda>j. scale_at (neighbor_at h side) side (int j)) [0..<n]"
    by (simp add: map_upt_Suc scale_at_0 neighbor_at_scale scale_at_scale_at del: upt_Suc)
  then show ?case
    by (simp add: Suc.IH neighbor_at_scale scale_at_scale_at del: upt_Suc)
qed

lemma corner_numeral:
  "corner c n 1 = scale_at (corner c n 0) 0 n"
  "corner c n 2 = scale_at (corner c n 1) 1 n"
  "corner c n 3 = scale_at (corner c n 2) 2 n"
  "corner c n 4 = scale_at (corner c n 3) 3 n"
  "corner c n 5 = scale_at (corner c n 4) 4 n"
  using corner.simps(2) [of c n 0] corner.simps(2) [of c n 1] corner.simps(2) [of c n 2]
    corner.simps(2) [of c n 3] corner.simps(2) [of c n 4]
  by (simp_all add: eval_nat_numeral)

lemma corner_explicit:
  "corner c n 0 = Hex (q c - n) (r c + n)"
  "corner c n 1 = Hex (q c) (r c + n)"
  "corner c n 2 = Hex (q c + n) (r c)"
  "corner c n 3 = Hex (q c + n) (r c - n)"
  "corner c n 4 = Hex (q c) (r c - n)"
  "corner c n 5 = Hex (q c - n) (r c)"
  by (simp_all add: corner_numeral scale_at_simps)

lemma ring_segments:
  "0 < radius \<Longrightarrow> ring center radius = Inr (concat (map (segment center radius) [0..<6]))"
  by (simp add: ring_def upt6 ring_side_eq segment_def corner_numeral del: upt_Suc)

lemma ring_eq_ring_hexes: "0 \<le> radius \<Longrightarrow> ring center radius = Inr (ring_hexes center radius)"
  by (cases "radius = 0") (simp_all add: ring_hexes_def ring_segments, simp add: ring_def)

lemma segment_explicit:
  "segment c n 0 = map (\<lambda>j. Hex (q c - n + int j) (r c + n)) [0..<nat n]"
  "segment c n (Suc 0) = map (\<lambda>j. Hex (q c + int j) (r c + n - int j)) [0..<nat n]"
  "segment c n 2 = map (\<lambda>j. Hex (q c + n) (r c - int j)) [0..<nat n]"
  "segment c n 3 = map (\<lambda>j. Hex (q c + n - int j) (r c - n)) [0..<nat n]"
  "segment c n 4 = map (\<lambda>j. Hex (q c - int j) (r c - n + int j)) [0..<nat n]"
  "segment c n 5 = map (\<lambda>j. Hex (q c - n) (r c + int j)) [0..<nat n]"
  using corner_explicit [of c n]
  by (simp_all add: segment_def scale_at_simps)

lemma segment_length: "length (segment c n i) = nat n"
  by (simp add: segment_def)

lemma dist_seg:
  assumes "0 \<le> j" "j < n"
  shows "distance (Hex (q c - n + j) (r c + n)) c = n"
    and "distance (Hex (q c + j) (r c + n - j)) c = n"
    and "distance (Hex (q c + n) (r c - j)) c = n"
    and "distance (Hex (q c + n - j) (r c - n)) c = n"
    and "distance (Hex (q c - j) (r c - n + j)) c = n"
    and "distance (Hex (q c - n) (r c + j)) c = n"
  using assms by (simp_all add: distance_def Let_def max_def)

lemma segment_distance:
  assumes "i < 6" and h: "h \<in> set (segment c n i)"
  shows "distance h c = n"
proof -
  from h obtain j where j: "j < nat n" and hj: "h = scale_at (corner c n i) i (int j)"
    by (auto simp: segment_def)
  from j have b: "0 \<le> int j" "int j < n" by simp_all
  from \<open>i < 6\<close> consider "i = 0" | "i = 1" | "i = 2" | "i = 3" | "i = 4" | "i = 5"
    by linarith
  then show ?thesis
    by cases (simp_all add: hj corner_explicit scale_at_simps dist_seg [OF b])
qed

lemma segment_distinct:
  "distinct (segment c n 0)" "distinct (segment c n (Suc 0))" "distinct (segment c n 2)"
  "distinct (segment c n 3)" "distinct (segment c n 4)" "distinct (segment c n 5)"
  by (simp_all add: segment_explicit distinct_map inj_on_def)

lemma segment_disjoint:
  shows "set (segment c n 0) \<inter> set (segment c n (Suc 0)) = {}"
    and "set (segment c n 0) \<inter> set (segment c n 2) = {}"
    and "set (segment c n 0) \<inter> set (segment c n 3) = {}"
    and "set (segment c n 0) \<inter> set (segment c n 4) = {}"
    and "set (segment c n 0) \<inter> set (segment c n 5) = {}"
    and "set (segment c n (Suc 0)) \<inter> set (segment c n 2) = {}"
    and "set (segment c n (Suc 0)) \<inter> set (segment c n 3) = {}"
    and "set (segment c n (Suc 0)) \<inter> set (segment c n 4) = {}"
    and "set (segment c n (Suc 0)) \<inter> set (segment c n 5) = {}"
    and "set (segment c n 2) \<inter> set (segment c n 3) = {}"
    and "set (segment c n 2) \<inter> set (segment c n 4) = {}"
    and "set (segment c n 2) \<inter> set (segment c n 5) = {}"
    and "set (segment c n 3) \<inter> set (segment c n 4) = {}"
    and "set (segment c n 3) \<inter> set (segment c n 5) = {}"
    and "set (segment c n 4) \<inter> set (segment c n 5) = {}"
  by (auto simp: segment_explicit)

lemma ring_hexes_distinct: "distinct (ring_hexes c n)"
  by (simp add: ring_hexes_def upt6 segment_distinct segment_disjoint Int_Un_distrib
      del: upt_Suc)

lemma ring_hexes_distance:
  assumes "0 \<le> n" and "h \<in> set (ring_hexes c n)"
  shows "distance h c = n"
proof (cases "n = 0")
  case True
  with assms show ?thesis by (simp add: ring_hexes_def distance_def)
next
  case False
  with assms obtain i where "i < 6" "h \<in> set (segment c n i)"
    by (auto simp: ring_hexes_def)
  then show ?thesis by (rule segment_distance)
qed

lemma ring_hexes_length: "0 \<le> n \<Longrightarrow> int (length (ring_hexes c n)) = max 1 (6 * n)"
  by (simp add: ring_hexes_def upt6 segment_length del: upt_Suc)

lemma ring_hexes_hd: "1 \<le> n \<Longrightarrow> hd (ring_hexes c n) = scale_at c 4 n"
proof -
  assume n: "1 \<le> n"
  then have "[0..<nat n] = 0 # [1..<nat n]"
    by (simp add: upt_conv_Cons)
  with n show ?thesis
    by (simp add: ring_hexes_def upt6 segment_def scale_at_0 del: upt_Suc)
qed

text \<open>
  C1. For a radius \<open>r \<ge> 0\<close>, \<^verbatim>\<open>ring(c, r)\<close> returns \<open>max 1 (6 r)\<close> coordinates (only
  \<open>c\<close> for \<open>r = 0\<close>), all at distance \<open>r\<close> from \<open>c\<close> and pairwise distinct; for
  \<open>r \<ge> 1\<close> it starts at \<open>c\<close> scaled \<open>r\<close> steps along direction \<open>4\<close> and is the six
  segments in order, segment \<open>i\<close> stepping \<open>r\<close> times in direction \<open>i\<close>.
\<close>

theorem ring_correct:
  assumes "0 \<le> radius"
  shows "\<exists>hs. ring center radius = Inr hs
           \<and> int (length hs) = max 1 (6 * radius)
           \<and> (radius = 0 \<longrightarrow> hs = [center])
           \<and> (\<forall>h \<in> set hs. distance h center = radius)
           \<and> distinct hs
           \<and> (1 \<le> radius \<longrightarrow>
                scale_dir center 4 radius = Inr (hd hs)
                \<and> hs = concat (map (segment center radius) [0..<6])
                \<and> (\<forall>i < 6. length (segment center radius i) = nat radius))"
proof (intro exI conjI)
  show "ring center radius = Inr (ring_hexes center radius)"
    using assms by (rule ring_eq_ring_hexes)
  show "int (length (ring_hexes center radius)) = max 1 (6 * radius)"
    using assms by (rule ring_hexes_length)
  show "radius = 0 \<longrightarrow> ring_hexes center radius = [center]"
    by (simp add: ring_hexes_def)
  show "\<forall>h \<in> set (ring_hexes center radius). distance h center = radius"
    using assms by (blast intro: ring_hexes_distance)
  show "distinct (ring_hexes center radius)"
    by (rule ring_hexes_distinct)
  show "1 \<le> radius \<longrightarrow>
          scale_dir center 4 radius = Inr (hd (ring_hexes center radius))
          \<and> ring_hexes center radius = concat (map (segment center radius) [0..<6])
          \<and> (\<forall>i < 6. length (segment center radius i) = nat radius)"
    using scale_dir_in_range [of 4 center radius]
    by (simp add: ring_hexes_hd segment_length) (simp add: ring_hexes_def)
qed

theorem ring_correct_witness:
  "ring (Hex 0 0) 2 =
     Inr [Hex (- 2) 2, Hex (- 1) 2, Hex 0 2, Hex 1 1, Hex 2 0, Hex 2 (- 1),
          Hex 2 (- 2), Hex 1 (- 2), Hex 0 (- 2), Hex (- 1) (- 1), Hex (- 2) 0, Hex (- 2) 1]
   \<and> (\<exists>hs. ring (Hex 0 0) 2 = Inr hs \<and> length hs = 12 \<and> distinct hs
          \<and> list_all (\<lambda>h. distance h (Hex 0 0) = 2) hs
          \<and> scale_dir (Hex 0 0) 4 2 = Inr (hd hs))"
proof -
  have "(0::int) \<le> 2" by simp
  from ring_correct [OF this, of "Hex 0 0"] obtain hs where
    hs: "ring (Hex 0 0) 2 = Inr hs" "int (length hs) = max 1 (6 * 2)"
      "\<forall>h \<in> set hs. distance h (Hex 0 0) = 2" "distinct hs"
      "scale_dir (Hex 0 0) 4 2 = Inr (hd hs)"
    by auto
  have "ring (Hex 0 0) 2 =
     Inr [Hex (- 2) 2, Hex (- 1) 2, Hex 0 2, Hex 1 1, Hex 2 0, Hex 2 (- 1),
          Hex 2 (- 2), Hex 1 (- 2), Hex 0 (- 2), Hex (- 1) (- 1), Hex (- 2) 0, Hex (- 2) 1]"
    by code_simp
  moreover from hs have "\<exists>hs. ring (Hex 0 0) 2 = Inr hs \<and> length hs = 12 \<and> distinct hs
          \<and> list_all (\<lambda>h. distance h (Hex 0 0) = 2) hs
          \<and> scale_dir (Hex 0 0) 4 2 = Inr (hd hs)"
    by (simp add: list_all_iff)
  ultimately show ?thesis by blast
qed


section \<open>The grid as a dictionary\<close>

lemma keys_Nil [simp]: "keys [] = []"
  by (simp add: keys_def)

lemma keys_Cons [simp]: "keys ((h, v) # g) = h # keys g"
  by (simp add: keys_def)

lemma length_keys [simp]: "length (keys g) = length g"
  by (simp add: keys_def)

lemma keys_set_cell:
  "keys (set_cell h v g) = (if h \<in> set (keys g) then keys g else keys g @ [h])"
proof (induction g)
  case Nil
  show ?case by simp
next
  case (Cons p g)
  then show ?case by (cases p) auto
qed

lemma set_cell_fresh: "h \<notin> set (keys g) \<Longrightarrow> set_cell h v g = g @ [(h, v)]"
proof (induction g)
  case Nil
  show ?case by simp
next
  case (Cons p g)
  then show ?case by (cases p) auto
qed

lemma get_set_cell: "get (set_cell h v g) h' = (if h' = h then Some v else get g h')"
  by (induction g) (auto simp: get_def)

lemma get_None_iff: "get g h = None \<longleftrightarrow> h \<notin> set (keys g)"
  by (simp add: get_def keys_def map_of_eq_None_iff)

lemma distinct_keys_set_cell: "distinct (keys g) \<Longrightarrow> distinct (keys (set_cell h v g))"
  by (simp add: keys_set_cell)

text \<open>
  Writing the items of a dictionary with distinct keys into another one that holds none
  of the (transformed) keys appends them in order. \<^verbatim>\<open>update\<close> and
  \<^verbatim>\<open>translate\<close> are instances.
\<close>

lemma fold_set_cell_fresh:
  assumes "distinct (map f (keys g))" and "set (map f (keys g)) \<inter> set (keys acc) = {}"
  shows "fold (\<lambda>(h, v) out. set_cell (f h) v out) g acc = acc @ map (\<lambda>(h, v). (f h, v)) g"
  using assms
proof (induction g arbitrary: acc)
  case Nil
  show ?case by simp
next
  case (Cons p g)
  obtain h v where p: "p = (h, v)" by (cases p)
  from Cons.prems have fresh: "f h \<notin> set (keys acc)"
    by (auto simp: p)
  have "fold (\<lambda>(h, v) out. set_cell (f h) v out) g (acc @ [(f h, v)])
        = (acc @ [(f h, v)]) @ map (\<lambda>(h, v). (f h, v)) g"
  proof (rule Cons.IH)
    show "distinct (map f (keys g))"
      using Cons.prems by (simp add: p)
    show "set (map f (keys g)) \<inter> set (keys (acc @ [(f h, v)])) = {}"
      using Cons.prems by (auto simp: p keys_def)
  qed
  with fresh show ?case
    by (simp add: p set_cell_fresh)
qed

lemma update_disjoint:
  assumes "distinct (keys other)" and "set (keys g) \<inter> set (keys other) = {}"
  shows "update g other = g @ other"
proof -
  have "fold (\<lambda>(h, v) out. set_cell ((\<lambda>x. x) h) v out) other g
        = g @ map (\<lambda>(h, v). ((\<lambda>x. x) h, v)) other"
    using assms by (intro fold_set_cell_fresh) auto
  then show ?thesis
    by (simp add: update_def)
qed

lemma update_empty: "distinct (keys g) \<Longrightarrow> update [] g = g"
  using update_disjoint [of g "[]"] by simp

lemma inj_add: "inj (\<lambda>h. add h dq dr)"
  by (rule injI) (simp add: add_def hex.expand)

lemma translate_map:
  assumes "distinct (keys g)"
  shows "translate g dq dr = map (\<lambda>(h, v). (add h dq dr, v)) g"
proof -
  have "distinct (map (\<lambda>h. add h dq dr) (keys g))"
    using assms inj_add by (simp add: distinct_map inj_on_def inj_def)
  then have "fold (\<lambda>(h, v) out. set_cell ((\<lambda>h. add h dq dr) h) v out) g []
             = [] @ map (\<lambda>(h, v). ((\<lambda>h. add h dq dr) h, v)) g"
    by (intro fold_set_cell_fresh) simp_all
  then show ?thesis
    by (simp add: translate_def)
qed

lemma keys_translate:
  "distinct (keys g) \<Longrightarrow> keys (translate g dq dr) = map (\<lambda>h. add h dq dr) (keys g)"
  by (simp add: translate_map keys_def split_def)

lemma distinct_keys_translate:
  "distinct (keys g) \<Longrightarrow> distinct (keys (translate g dq dr))"
  using inj_add [of dq dr] by (simp add: keys_translate distinct_map inj_on_def inj_def)

lemma add_add_inverse: "add (add h dq dr) (- dq) (- dr) = h"
  by (simp add: add_def)

text \<open>
  C10. For a grid \<open>g\<close> (a dictionary: its keys are distinct) and any \<open>dq\<close>, \<open>dr\<close>,
  \<^verbatim>\<open>g.translate(dq, dr)\<close> has as many cells as \<open>g\<close>, holds exactly the cells
  \<open>((q + dq, r + dr), v)\<close> for the cells \<open>((q, r), v)\<close> of \<open>g\<close>, and translating it back
  by \<open>(-dq, -dr)\<close> gives \<open>g\<close> again. The source writes only into the fresh grid it
  returns; the model's \<open>g\<close> is a value and stays what it is.
\<close>

theorem translate_roundtrip:
  assumes "distinct (keys g)"
  shows "length (translate g dq dr) = length g
         \<and> translate g dq dr = map (\<lambda>(h, v). (Hex (q h + dq) (r h + dr), v)) g
         \<and> distinct (keys (translate g dq dr))
         \<and> (\<forall>h. get (translate g dq dr) (add h dq dr) = get g h)
         \<and> translate (translate g dq dr) (- dq) (- dr) = g"
proof -
  have m: "translate g dq dr = map (\<lambda>(h, v). (add h dq dr, v)) g"
    using assms by (rule translate_map)
  have d: "distinct (keys (translate g dq dr))"
    using assms by (rule distinct_keys_translate)
  have "translate (translate g dq dr) (- dq) (- dr)
        = map (\<lambda>(h, v). (add h (- dq) (- dr), v)) (translate g dq dr)"
    using d by (rule translate_map)
  also have "\<dots> = g"
    by (simp add: m split_def add_add_inverse comp_def)
  finally have inv: "translate (translate g dq dr) (- dq) (- dr) = g" .
  have look: "get (translate g dq dr) (add h dq dr) = get g h" for h
  proof -
    have "map_of (map (\<lambda>(h, v). (add h dq dr, v)) g) (add h dq dr) = map_of g h"
      using inj_add [of dq dr] by (induction g) (auto simp: inj_def)
    then show ?thesis by (simp add: get_def m)
  qed
  from m d inv look show ?thesis
    by (simp add: add_def)
qed

theorem translate_roundtrip_witness:
  "translate [(Hex 0 0, ''forest''), (Hex 1 (- 1), ''hills'')] 2 (- 3)
     = [(Hex 2 (- 3), ''forest''), (Hex 3 (- 4), ''hills'')]
   \<and> translate (translate [(Hex 0 0, ''forest''), (Hex 1 (- 1), ''hills'')] 2 (- 3)) (- 2) (- (- 3))
     = [(Hex 0 0, ''forest''), (Hex 1 (- 1), ''hills'')]"
proof -
  have "distinct (keys [(Hex 0 0, ''forest''), (Hex 1 (- 1), ''hills'')])"
    by simp
  from translate_roundtrip [OF this, of 2 "- 3"] show ?thesis
    by (simp add: translate_def add_def)
qed


section \<open>The snowflake generator\<close>

lemma fill_ring_step:
  "\<exists>b rng'. fill_ring c (h # hs) (g, rng) = fill_ring c hs (set_cell h b g, rng')"
  by (cases "choose_inward_neighbor h c g")
    (auto simp: Let_def split: prod.splits)

lemma fill_ring_distinct:
  "distinct (keys g) \<Longrightarrow> distinct (keys (fst (fill_ring c hs (g, rng))))"
proof (induction hs arbitrary: g rng)
  case Nil
  then show ?case by simp
next
  case (Cons h hs)
  obtain b rng' where "fill_ring c (h # hs) (g, rng) = fill_ring c hs (set_cell h b g, rng')"
    using fill_ring_step by blast
  with Cons show ?case
    by (simp only: distinct_keys_set_cell)
qed

text \<open>Filling hexes that are new to the grid appends them as keys, in order.\<close>

lemma fill_ring_keys:
  assumes "distinct hs" and "set hs \<inter> set (keys g) = {}"
  shows "keys (fst (fill_ring c hs (g, rng))) = keys g @ hs"
  using assms
proof (induction hs arbitrary: g rng)
  case Nil
  show ?case by simp
next
  case (Cons h hs)
  obtain b rng' where st: "fill_ring c (h # hs) (g, rng) = fill_ring c hs (set_cell h b g, rng')"
    using fill_ring_step by blast
  from Cons.prems have k: "keys (set_cell h b g) = keys g @ [h]"
    by (simp add: keys_set_cell)
  have "keys (fst (fill_ring c hs (set_cell h b g, rng'))) = keys (set_cell h b g) @ hs"
    using Cons.prems by (intro Cons.IH) (auto simp: k)
  then show ?case
    unfolding st by (simp add: k)
qed

lemma fill_rings_distinct:
  "distinct (keys (fst s)) \<Longrightarrow> fill_rings c ks s = Inr s' \<Longrightarrow> distinct (keys (fst s'))"
proof (induction ks arbitrary: s)
  case Nil
  then show ?case by simp
next
  case (Cons k ks)
  from Cons.prems(2) obtain hs where hs: "ring c k = Inr hs"
    and rest: "fill_rings c ks (fill_ring c hs s) = Inr s'"
    by (auto split: sum.splits)
  have "distinct (keys (fst (fill_ring c hs s)))"
    using Cons.prems(1) fill_ring_distinct [of "fst s" c hs "snd s"] by simp
  then show ?case
    using rest by (rule Cons.IH)
qed

lemma generate_distinct: "generate c radius rng = Inr (g, rng') \<Longrightarrow> distinct (keys g)"
proof -
  assume gen: "generate c radius rng = Inr (g, rng')"
  obtain b rng0 where sb: "start_biome rng = (b, rng0)"
    by (cases "start_biome rng")
  from gen sb have "fill_rings c [1..radius] ([(c, b)], rng0) = Inr (g, rng')"
    by (simp add: generate_def split: if_splits)
  from fill_rings_distinct [OF _ this] show ?thesis
    by simp
qed

text \<open>
  The outer loop over ring distances \<open>ks\<close>, none of which is the distance of a hex
  already in the grid: every ring is new, so the keys grow by the rings in order.
\<close>

lemma fill_rings_keys:
  assumes "\<forall>k \<in> set ks. 0 \<le> k" and "distinct ks"
    and "\<forall>h \<in> set (keys g). distance h c \<notin> set ks"
  shows "\<exists>g' rng'. fill_rings c ks (g, rng) = Inr (g', rng')
           \<and> keys g' = keys g @ concat (map (ring_hexes c) ks)"
  using assms
proof (induction ks arbitrary: g rng)
  case Nil
  show ?case by simp
next
  case (Cons k ks)
  from Cons.prems(1) have k0: "0 \<le> k" by simp
  then have rk: "ring c k = Inr (ring_hexes c k)"
    by (rule ring_eq_ring_hexes)
  obtain g1 rng1 where s1: "fill_ring c (ring_hexes c k) (g, rng) = (g1, rng1)"
    by (cases "fill_ring c (ring_hexes c k) (g, rng)")
  have new: "set (ring_hexes c k) \<inter> set (keys g) = {}"
    using Cons.prems(3) ring_hexes_distance [OF k0] by fastforce
  have k1: "keys g1 = keys g @ ring_hexes c k"
    using fill_ring_keys [OF ring_hexes_distinct new, of c rng] by (simp add: s1)
  have "\<exists>g' rng'. fill_rings c ks (g1, rng1) = Inr (g', rng')
           \<and> keys g' = keys g1 @ concat (map (ring_hexes c) ks)"
  proof (rule Cons.IH)
    show "\<forall>k \<in> set ks. 0 \<le> k"
      using Cons.prems(1) by simp
    show "distinct ks"
      using Cons.prems(2) by simp
    show "\<forall>h \<in> set (keys g1). distance h c \<notin> set ks"
    proof
      fix h assume "h \<in> set (keys g1)"
      then consider "h \<in> set (keys g)" | "h \<in> set (ring_hexes c k)"
        by (auto simp: k1)
      then show "distance h c \<notin> set ks"
      proof cases
        case 1
        with Cons.prems(3) show ?thesis by simp
      next
        case 2
        then have "distance h c = k"
          using ring_hexes_distance [OF k0] by blast
        with Cons.prems(2) show ?thesis by simp
      qed
    qed
  qed
  then show ?case
    by (simp add: rk s1 k1)
qed

lemma generate_keys:
  assumes "0 \<le> radius"
  shows "\<exists>g rng'. generate c radius rng = Inr (g, rng')
           \<and> keys g = c # concat (map (ring_hexes c) [1..radius])"
proof -
  obtain b rng0 where sb: "start_biome rng = (b, rng0)"
    by (cases "start_biome rng")
  have "distance c c = 0"
    by (simp add: distance_def)
  then have "\<exists>g' rng'. fill_rings c [1..radius] ([(c, b)], rng0) = Inr (g', rng')
           \<and> keys g' = keys [(c, b)] @ concat (map (ring_hexes c) [1..radius])"
    by (intro fill_rings_keys) auto
  with assms sb show ?thesis
    by (simp add: generate_def)
qed

lemma rings_length:
  "int (length (concat (map (ring_hexes c) [1..int n]))) = 3 * int n * (int n + 1)"
proof (induction n)
  case 0
  show ?case by simp
next
  case (Suc n)
  have "[1..int (Suc n)] = [1..int n] @ [int n + 1]"
    using upto_rec2 [of 1 "int n + 1"] by (simp add: add.commute)
  moreover have "int (length (ring_hexes c (int n + 1))) = 6 * (int n + 1)"
    using ring_hexes_length [of "int n + 1" c] by simp
  ultimately show ?case
    using Suc.IH by (simp add: algebra_simps)
qed

text \<open>
  C2. For every center, every radius \<open>\<ge> 0\<close> and every state of the random source,
  \<^verbatim>\<open>generate\<close> returns a grid that holds the center and has exactly
  \<open>1 + 3 radius (radius + 1)\<close> cells.
\<close>

theorem generate_size:
  assumes "0 \<le> radius"
  shows "\<exists>g rng'. generate center radius rng = Inr (g, rng')
           \<and> contains g center
           \<and> int (length g) = 1 + 3 * radius * (radius + 1)"
proof -
  from generate_keys [OF assms, of center rng] obtain g rng' where
    gen: "generate center radius rng = Inr (g, rng')"
    and ks: "keys g = center # concat (map (ring_hexes center) [1..radius])"
    by blast
  have "length g = length (keys g)"
    by simp
  also have "int \<dots> = 1 + 3 * radius * (radius + 1)"
    using rings_length [of center "nat radius"] assms by (simp add: ks del: length_keys)
  finally have "int (length g) = 1 + 3 * radius * (radius + 1)" .
  moreover have "contains g center"
    by (simp add: contains_def ks)
  ultimately show ?thesis
    using gen by simp
qed

theorem generate_size_witness:
  "\<exists>g rng'. generate (Hex 3 (- 1)) 2 (\<lambda>i. 7 * i + 3) = Inr (g, rng')
     \<and> contains g (Hex 3 (- 1)) \<and> int (length g) = 19"
  using generate_size [of 2 "Hex 3 (- 1)" "\<lambda>i. 7 * i + 3"] by simp


section \<open>Negative arguments\<close>

text \<open>
  C6, at the code. A negative radius makes \<^verbatim>\<open>ring\<close>, \<^verbatim>\<open>generate\<close> and
  \<^verbatim>\<open>build\<close> (for either radius) raise \<open>ValueError\<close> before anything is built, and a
  count below \<open>1\<close> does so for \<^verbatim>\<open>build_chain\<close>. \<^verbatim>\<open>spiral\<close> is the exception:
  it has no check, its range of ring distances is empty, and it returns the empty
  sequence instead of an error.
\<close>

theorem negative_radius_behaviour:
  assumes "radius < 0" and "0 \<le> meta_radius" and "count < 1"
  shows "ring center radius = Inl (ValueError ''radius must be >= 0'')
         \<and> generate center radius rng = Inl (ValueError ''radius must be >= 0'')
         \<and> build radius snowflake_radius rng = Inl (ValueError ''meta_radius must be >= 0'')
         \<and> build meta_radius radius rng = Inl (ValueError ''snowflake_radius must be >= 0'')
         \<and> build_chain set_iter count chain_radius max_tries rng
             = Inl (ValueError ''count must be >= 1'')
         \<and> spiral center radius = Inr []"
  using assms by (simp add: ring_def generate_def build_def build_chain_def spiral_def)

theorem negative_radius_behaviour_witness:
  "ring (Hex 0 0) (- 1) = Inl (ValueError ''radius must be >= 0'')
   \<and> build 1 (- 1) (\<lambda>i. i) = Inl (ValueError ''snowflake_radius must be >= 0'')
   \<and> build_chain (\<lambda>ks. ks) 0 2 5000 (\<lambda>i. i) = Inl (ValueError ''count must be >= 1'')
   \<and> spiral (Hex 0 0) (- 1) = Inr []"
proof -
  have "(- 1::int) < 0" "(0::int) \<le> 1" "(0::int) < 1"
    by simp_all
  from negative_radius_behaviour [OF this, of "Hex 0 0" "\<lambda>i. i" 0 "\<lambda>ks. ks" 2 5000]
  show ?thesis
    by simp
qed

section \<open>The connected chain\<close>

text \<open>An accepted placement passed both checks against the super-map it is merged into.\<close>

lemma try_place_accepts:
  "try_place n super_map new frontier new_keys rng = Inr (g', rng') \<Longrightarrow>
     \<exists>moved. g' = update super_map moved \<and> is_disjoint super_map moved
       \<and> touches super_map moved \<and> (\<exists>dq dr. moved = translate new dq dr)"
proof (induction n arbitrary: rng)
  case 0
  then show ?case by simp
next
  case (Suc n)
  from Suc.prems obtain target rng1 anchor rng2 where
    "choice frontier rng = Inr (target, rng1)" "choice new_keys rng1 = Inr (anchor, rng2)"
    by (auto split: sum.splits)
  with Suc show ?case
    by (auto simp: Let_def split: if_splits)
qed

lemma chain_loop_placements:
  "chain_loop n set_iter radius max_tries (g, rng) = Inr (g', rng') \<Longrightarrow>
     \<exists>ms. length ms = n \<and> placed_ok g ms \<and> g' = foldl update g ms
       \<and> (\<forall>m \<in> set ms. \<exists>rng0 new rng1 dq dr.
             generate (Hex 0 0) radius rng0 = Inr (new, rng1) \<and> m = translate new dq dr)"
proof (induction n arbitrary: g rng)
  case 0
  then show ?case by simp
next
  case (Suc n)
  from Suc.prems obtain new rng1 g1 rng2 where
    gen: "generate (Hex 0 0) radius rng = Inr (new, rng1)"
    and pl: "try_place (nat max_tries) g new (frontier_of (set_iter (keys g))) (keys new) rng1
          = Inr (g1, rng2)"
    and rest: "chain_loop n set_iter radius max_tries (g1, rng2) = Inr (g', rng')"
    by (auto simp: Let_def split: sum.splits if_splits)
  from try_place_accepts [OF pl] obtain moved dq dr where
    m: "g1 = update g moved" "is_disjoint g moved" "touches g moved"
    and tr: "moved = translate new dq dr"
    by blast
  from Suc.IH [OF rest] obtain ms where
    ms: "length ms = n" "placed_ok g1 ms" "g' = foldl update g1 ms"
    and org: "\<forall>m \<in> set ms. \<exists>rng0 new rng1 dq dr.
             generate (Hex 0 0) radius rng0 = Inr (new, rng1) \<and> m = translate new dq dr"
    by blast
  have "length (moved # ms) = Suc n \<and> placed_ok g (moved # ms)
        \<and> g' = foldl update g (moved # ms)"
    using m ms by simp
  moreover have "\<forall>m \<in> set (moved # ms). \<exists>rng0 new rng1 dq dr.
             generate (Hex 0 0) radius rng0 = Inr (new, rng1) \<and> m = translate new dq dr"
    using org gen tr by auto
  ultimately show ?case by blast
qed

text \<open>
  C3. In every successful run of \<^verbatim>\<open>build_chain\<close> with \<open>count \<ge> 2\<close> there are
  \<open>count - 1\<close> placed clusters after the seed, each a translated copy of a generated
  cluster, each of them disjoint from the super-grid built so far and edge-adjacent to
  it at the moment it is merged, and the result is the seed with these clusters merged
  in order. It holds for every state of the random source and every iteration order of
  the key set.
\<close>

theorem build_chain_placements:
  assumes "build_chain set_iter count radius max_tries rng = Inr (final, rng')"
    and "2 \<le> count"
  shows "\<exists>seed rng1 ms. generate (Hex 0 0) radius rng = Inr (seed, rng1)
           \<and> length ms = nat (count - 1)
           \<and> placed_ok seed ms
           \<and> final = foldl update seed ms
           \<and> (\<forall>m \<in> set ms. \<exists>rng0 new rng1 dq dr.
                 generate (Hex 0 0) radius rng0 = Inr (new, rng1) \<and> m = translate new dq dr)"
proof -
  from assms obtain seed rng1 where
    gen: "generate (Hex 0 0) radius rng = Inr (seed, rng1)"
    and loop: "chain_loop (nat (count - 1)) set_iter radius max_tries (update [] seed, rng1)
                = Inr (final, rng')"
    by (auto simp: build_chain_def split: sum.splits if_splits)
  have "update [] seed = seed"
    using generate_distinct [OF gen] by (rule update_empty)
  with loop have "chain_loop (nat (count - 1)) set_iter radius max_tries (seed, rng1)
                = Inr (final, rng')"
    by simp
  from chain_loop_placements [OF this] gen show ?thesis
    by blast
qed

lemma build_chain_example:
  "build_chain (\<lambda>ks. ks) 2 0 1 (\<lambda>i. 0)
     = Inr ([(Hex 0 0, ''grassland''), (Hex 1 0, ''grassland'')], \<lambda>i. 0)"
  by (simp add: build_chain_def generate_def start_biome_def randint_def randbelow_def
      update_def keys_def frontier_of_def neighbors_def neighbor_at_def DIRS_def upt_rec
      choice_def translate_def add_def is_disjoint_def touches_def)

theorem build_chain_placements_witness:
  "\<exists>seed rng1 ms. generate (Hex 0 0) 0 (\<lambda>i. 0) = Inr (seed, rng1)
     \<and> length ms = 1
     \<and> placed_ok seed ms
     \<and> [(Hex 0 0, ''grassland''), (Hex 1 0, ''grassland'')] = foldl update seed ms"
  using build_chain_placements [OF build_chain_example] by auto

text \<open>
  C9. With \<open>count = 1\<close> and a radius \<open>\<ge> 0\<close>, \<^verbatim>\<open>build_chain\<close> returns the very grid
  that \<^verbatim>\<open>generate\<close> returns for the origin from the same state of the random source,
  and leaves the source in the same state (the placement loop runs zero times); for
  radius \<open>1\<close> the grid has \<open>7\<close> cells.
\<close>

theorem build_chain_single:
  assumes "0 \<le> radius"
  shows "\<exists>g rng'. generate (Hex 0 0) radius rng = Inr (g, rng')
           \<and> build_chain set_iter 1 radius max_tries rng = Inr (g, rng')
           \<and> (radius = 1 \<longrightarrow> length g = 7)"
proof -
  from generate_keys [OF assms, of "Hex 0 0" rng] obtain g rng' where
    gen: "generate (Hex 0 0) radius rng = Inr (g, rng')"
    and ks: "keys g = Hex 0 0 # concat (map (ring_hexes (Hex 0 0)) [1..radius])"
    by blast
  have "update [] g = g"
    using generate_distinct [OF gen] by (rule update_empty)
  then have bc: "build_chain set_iter 1 radius max_tries rng = Inr (g, rng')"
    by (simp add: build_chain_def gen)
  have "radius = 1 \<longrightarrow> length g = 7"
  proof
    assume "radius = 1"
    then have "int (length (keys g)) = 7"
      using rings_length [of "Hex 0 0" 1] by (simp add: ks del: length_keys)
    then show "length g = 7" by simp
  qed
  with gen bc show ?thesis by blast
qed

theorem build_chain_single_witness:
  "\<exists>g rng'. generate (Hex 0 0) 1 (\<lambda>i. 7 * i + 3) = Inr (g, rng')
     \<and> build_chain (\<lambda>ks. ks) 1 1 5000 (\<lambda>i. 7 * i + 3) = Inr (g, rng')
     \<and> length g = 7"
  using build_chain_single [of 1 "\<lambda>i. 7 * i + 3" "\<lambda>ks. ks" 5000] by simp


section \<open>The concentric build\<close>

lemma spiral_loop_eq:
  "\<forall>k \<in> set ks. 0 \<le> k \<Longrightarrow>
     spiral_loop c ks out = Inr (out @ concat (map (ring_hexes c) ks))"
  by (induction ks arbitrary: out) (simp_all add: ring_eq_ring_hexes)

lemma spiral_eq:
  "0 \<le> radius \<Longrightarrow> spiral c radius = Inr (concat (map (ring_hexes c) [0..radius]))"
  using spiral_loop_eq [of "[0..radius]" c "[]"] by (simp add: spiral_def)

text \<open>
  Merging a cluster under first-wins: a coordinate keeps the value the output has for
  it, and gets the cluster's value only when the output has none.
\<close>

lemma get_Nil [simp]: "get [] h = None"
  by (simp add: get_def)

lemma get_Cons: "get ((h', v') # g) h = (if h = h' then Some v' else get g h)"
  by (simp add: get_def)

lemma get_merge_first_wins:
  "get (merge_first_wins out g) h = (case get out h of Some v \<Rightarrow> Some v | None \<Rightarrow> get g h)"
  unfolding merge_first_wins_def
proof (induction g arbitrary: out)
  case Nil
  show ?case by (simp split: option.splits)
next
  case (Cons p g)
  obtain h' v' where p: "p = (h', v')" by (cases p)
  show ?case
  proof (cases "get out h' = None")
    case True
    then show ?thesis
      using Cons.IH [of "set_cell h' v' out"]
      by (auto simp: p get_set_cell get_Cons split: option.splits)
  next
    case False
    then show ?thesis
      using Cons.IH [of out]
      by (auto simp: p get_Cons split: option.splits)
  qed
qed

lemma get_foldl_merge_first_wins:
  "get (foldl merge_first_wins out gs) h
     = (case get out h of Some v \<Rightarrow> Some v | None \<Rightarrow> first_wins gs h)"
  by (induction gs arbitrary: out) (auto simp: get_merge_first_wins split: option.splits)

lemma build_loop_eq:
  "build_loop mps spacing sr (out, rng) =
     (case gen_clusters (map (\<lambda>mh. Hex (q mh * spacing) (r mh * spacing)) mps) sr rng of
        Inl e \<Rightarrow> Inl e
      | Inr (gs, rng') \<Rightarrow> Inr (foldl merge_first_wins out gs, rng'))"
  by (induction mps arbitrary: out rng) (auto split: sum.splits)

lemma gen_clusters_succeeds:
  "0 \<le> radius \<Longrightarrow> \<exists>gs rng'. gen_clusters cs radius rng = Inr (gs, rng') \<and> length gs = length cs"
proof (induction cs arbitrary: rng)
  case Nil
  show ?case by simp
next
  case (Cons c cs)
  from generate_keys [OF Cons.prems, of c rng] obtain g rng1 where
    "generate c radius rng = Inr (g, rng1)"
    by blast
  moreover from Cons.IH [OF Cons.prems, of rng1] obtain gs rng2 where
    "gen_clusters cs radius rng1 = Inr (gs, rng2)" "length gs = length cs"
    by blast
  ultimately show ?case by simp
qed

text \<open>
  C4. For radii \<open>\<ge> 0\<close>, \<^verbatim>\<open>build\<close> generates one cluster for each meta-position of
  \<^verbatim>\<open>spiral(origin, meta_radius)\<close>, in that order and from the random source as the
  previous cluster left it, centered at \<open>(mq * 2 snowflake_radius, mr * 2 snowflake_radius)\<close>
  for the meta-position \<open>(mq, mr)\<close>; the output is the clusters merged in order under
  first-wins, so every coordinate has the value of the first cluster that holds it, and
  a merge never changes the value of a coordinate that is already present.
\<close>

theorem build_first_wins:
  assumes "0 \<le> meta_radius" and "0 \<le> snowflake_radius"
  shows "\<exists>mps clusters out rng'.
           spiral (Hex 0 0) meta_radius = Inr mps
           \<and> gen_clusters
                (map (\<lambda>mh. Hex (q mh * (2 * snowflake_radius)) (r mh * (2 * snowflake_radius))) mps)
                snowflake_radius rng = Inr (clusters, rng')
           \<and> length clusters = length mps
           \<and> build meta_radius snowflake_radius rng = Inr (out, rng')
           \<and> out = foldl merge_first_wins [] clusters
           \<and> (\<forall>h. get out h = first_wins clusters h)
           \<and> (\<forall>acc g h v. get acc h = Some v \<longrightarrow> get (merge_first_wins acc g) h = Some v)"
proof -
  define mps where "mps = concat (map (ring_hexes (Hex 0 0)) [0..meta_radius])"
  define centers where
    "centers = map (\<lambda>mh. Hex (q mh * (2 * snowflake_radius)) (r mh * (2 * snowflake_radius))) mps"
  have sp: "spiral (Hex 0 0) meta_radius = Inr mps"
    using assms(1) by (simp add: spiral_eq mps_def)
  from gen_clusters_succeeds [OF assms(2), of centers rng] obtain clusters rng' where
    gc: "gen_clusters centers snowflake_radius rng = Inr (clusters, rng')"
    and len: "length clusters = length mps"
    by (auto simp: centers_def)
  define out where "out = foldl merge_first_wins [] clusters"
  have b: "build meta_radius snowflake_radius rng = Inr (out, rng')"
    using assms gc by (simp add: build_def sp build_loop_eq out_def centers_def)
  have fw: "\<forall>h. get out h = first_wins clusters h"
    by (simp add: out_def get_foldl_merge_first_wins)
  have keep: "\<forall>acc g h v. get acc h = Some v \<longrightarrow> get (merge_first_wins acc g) h = Some v"
    by (simp add: get_merge_first_wins)
  from sp gc len b fw keep show ?thesis
    unfolding centers_def out_def by blast
qed

theorem build_first_wins_witness:
  "\<exists>mps clusters out rng'.
     spiral (Hex 0 0) 1 = Inr mps
     \<and> gen_clusters (map (\<lambda>mh. Hex (q mh * (2 * 1)) (r mh * (2 * 1))) mps) 1 (\<lambda>i. 7 * i + 3)
         = Inr (clusters, rng')
     \<and> length clusters = length mps
     \<and> build 1 1 (\<lambda>i. 7 * i + 3) = Inr (out, rng')
     \<and> out = foldl merge_first_wins [] clusters
     \<and> (\<forall>h. get out h = first_wins clusters h)"
proof -
  have "(0::int) \<le> 1" by simp
  from build_first_wins [OF this this, of "\<lambda>i. 7 * i + 3"] show ?thesis
    by blast
qed


section \<open>The frontier\<close>

lemma neighbors_explicit:
  "neighbors h = [Hex (q h + 1) (r h), Hex (q h + 1) (r h - 1), Hex (q h) (r h - 1),
                  Hex (q h - 1) (r h), Hex (q h - 1) (r h + 1), Hex (q h) (r h + 1)]"
  by (simp add: neighbors_def upt6 neighbor_at_scale scale_at_simps del: upt_Suc)

lemma neighbors_distinct: "distinct (neighbors h)"
  by (simp add: neighbors_explicit)

lemma count_list_concat:
  "count_list (concat xss) x = sum_list (map (\<lambda>xs. count_list xs x) xss)"
  by (induction xss) simp_all

lemma count_list_filter:
  "count_list (filter P xs) x = (if P x then count_list xs x else 0)"
  by (induction xs) auto

lemma count_list_distinct:
  "distinct xs \<Longrightarrow> count_list xs x = (if x \<in> set xs then 1 else 0)"
  by (induction xs) auto

lemma sum_list_indicator:
  "sum_list (map (\<lambda>x. if P x then 1 else 0) xs) = length (filter P xs)"
  by (induction xs) simp_all

lemma frontier_of_set:
  "set (frontier_of ks) = {h. h \<notin> set ks \<and> (\<exists>g \<in> set ks. h \<in> set (neighbors g))}"
  by (auto simp: frontier_of_def)

lemma frontier_of_count:
  "count_list (frontier_of ks) h
     = (if h \<in> set ks then 0 else length (filter (\<lambda>g. h \<in> set (neighbors g)) ks))"
proof -
  have "count_list (frontier_of ks) h
        = sum_list (map (\<lambda>g. if h \<notin> set ks then count_list (neighbors g) h else 0) ks)"
    by (simp add: frontier_of_def count_list_concat count_list_filter comp_def)
  also have "\<dots> = (if h \<in> set ks then 0
                    else sum_list (map (\<lambda>g. if h \<in> set (neighbors g) then 1 else 0) ks))"
    by (simp add: count_list_distinct [OF neighbors_distinct])
  finally show ?thesis
    by (simp add: sum_list_indicator)
qed

text \<open>
  C5, as the code has it. For the super-map's key set enumerated in any order, the
  frontier list holds exactly the coordinates that are not in the super-map and are
  edge-adjacent to one of its coordinates, and it holds such a coordinate once for every
  coordinate of the super-map it is adjacent to, not once. The target is one
  \<^verbatim>\<open>choice\<close> from this list: one draw below the length of the list, so a frontier
  coordinate is weighted by the number of its neighbours in the super-map.
\<close>

theorem frontier_multiplicity:
  assumes "distinct super_set"
  shows "set (frontier_of super_set)
           = {h. h \<notin> set super_set \<and> (\<exists>g \<in> set super_set. h \<in> set (neighbors g))}
         \<and> (\<forall>h. count_list (frontier_of super_set) h
                = (if h \<in> set super_set then 0
                   else card {g \<in> set super_set. h \<in> set (neighbors g)}))
         \<and> (frontier_of super_set \<noteq> [] \<longrightarrow>
               choice (frontier_of super_set) rng
                 = Inr (frontier_of super_set ! (rng 0 mod length (frontier_of super_set)),
                        \<lambda>i. rng (Suc i)))"
proof -
  have "length (filter (\<lambda>g. h \<in> set (neighbors g)) super_set)
        = card {g \<in> set super_set. h \<in> set (neighbors g)}" for h
  proof -
    have "{g \<in> set super_set. h \<in> set (neighbors g)}
          = {g. h \<in> set (neighbors g)} \<inter> set super_set"
      by blast
    with assms show ?thesis
      by (simp add: distinct_length_filter)
  qed
  then show ?thesis
    by (simp add: frontier_of_set frontier_of_count choice_def randbelow_def)
qed

theorem frontier_multiplicity_witness:
  "set (frontier_of [Hex 0 0, Hex 1 0])
     = {h. h \<notin> set [Hex 0 0, Hex 1 0]
           \<and> (\<exists>g \<in> set [Hex 0 0, Hex 1 0]. h \<in> set (neighbors g))}
   \<and> count_list (frontier_of [Hex 0 0, Hex 1 0]) (Hex 1 (- 1))
     = card {g \<in> set [Hex 0 0, Hex 1 0]. Hex 1 (- 1) \<in> set (neighbors g)}
   \<and> count_list (frontier_of [Hex 0 0, Hex 1 0]) (Hex 1 (- 1)) = 2"
proof -
  have d: "distinct [Hex 0 0, Hex 1 0]"
    by simp
  have "count_list (frontier_of [Hex 0 0, Hex 1 0]) (Hex 1 (- 1)) = 2"
    by (simp add: frontier_of_def neighbors_explicit)
  with frontier_multiplicity [OF d, of "\<lambda>i. i"] show ?thesis
    by simp
qed

text \<open>
  The claim C5 as stated fails at the first placement of a chain of radius \<open>1\<close>: the
  seed's keys are the center and its ring, and the frontier list built from them has
  \<open>18\<close> entries for \<open>12\<close> coordinates; \<open>(2, -1)\<close>, adjacent to \<open>(1, 0)\<close> and
  \<open>(1, -1)\<close>, is in it twice.
\<close>

theorem frontier_duplicates_counterexample:
  "map_sum id (keys \<circ> fst) (generate (Hex 0 0) 1 (\<lambda>i. 0))
     = Inr [Hex 0 0, Hex (- 1) 1, Hex 0 1, Hex 1 0, Hex 1 (- 1), Hex 0 (- 1), Hex (- 1) 0]
   \<and> count_list
        (frontier_of [Hex 0 0, Hex (- 1) 1, Hex 0 1, Hex 1 0, Hex 1 (- 1), Hex 0 (- 1), Hex (- 1) 0])
        (Hex 2 (- 1)) = 2
   \<and> length
        (frontier_of [Hex 0 0, Hex (- 1) 1, Hex 0 1, Hex 1 0, Hex 1 (- 1), Hex 0 (- 1), Hex (- 1) 0])
       = 18
   \<and> \<not> distinct
        (frontier_of [Hex 0 0, Hex (- 1) 1, Hex 0 1, Hex 1 0, Hex 1 (- 1), Hex 0 (- 1), Hex (- 1) 0])"
  by code_simp

end
